theory Spec2Isabelle
  imports Complex_Main
begin

section \<open>Alternating least squares: the function \<open>als\<close> of the ALS notebook\<close>

text \<open>
  The notebook defines one function with algorithmic content:
  \<^verbatim>\<open>
  def als(ratings, users, items, reps=10):

      ratings_cols = ratings.T
      for _ in range(reps):
          new_users = []
          for i in range(len(ratings)):
              user = np.linalg.pinv(items).dot(ratings[i])
              new_users.append(user)
          new_users = np.asarray(new_users)

          new_items = []
          for i in range(len(ratings)):
              item = np.linalg.pinv(new_users).dot(ratings_cols[i])
              new_items.append(item)
          new_items = np.asarray(new_items)

          guess = new_users.dot(new_items.T)
          err = (ratings - guess)**2
          print(np.sum(err))

          items = new_items

      return new_users, new_items
  \<close>
  Array entries are modelled as real numbers: the rounding of 64-bit floating point,
  its overflow and its special values (NaN, infinities) are outside the model. What is
  proved therefore concerns shapes, exceptions, the order of the computation and which
  products are formed; it does not say which floating-point numbers a run prints.
\<close>

subsection \<open>Arrays of dimension at most two\<close>

type_synonym vec = "real list"

text \<open>
  A two-dimensional array carries its shape, so that an array with no rows still has a
  column count, as \<open>ndarray.shape\<close> has.
\<close>

datatype mat = Mat (nrows: nat) (ncols: nat) (mrows: "vec list")

definition wf_mat :: "mat \<Rightarrow> bool" where
  "wf_mat A \<longleftrightarrow>
     length (mrows A) = nrows A \<and> list_all (\<lambda>r. length r = ncols A) (mrows A)"

datatype ndarray = Arr0 real | Arr1 vec | Arr2 mat

text \<open>The exceptions the function can raise.\<close>

datatype error = ValueError | IndexError | LinAlgError | UnboundLocalError

text \<open>\<open>A.T\<close>: the transpose of a two-dimensional array; arrays of lower dimension are
  their own transpose.\<close>

definition mat_T :: "mat \<Rightarrow> mat" where
  "mat_T A = Mat (ncols A) (nrows A) (map (\<lambda>j. map (\<lambda>r. r ! j) (mrows A)) [0..<ncols A])"

fun nd_T :: "ndarray \<Rightarrow> ndarray" where
  "nd_T (Arr2 A) = Arr2 (mat_T A)"
| "nd_T a = a"

text \<open>\<open>A[i]\<close> for a two-dimensional array and \<open>i \<ge> 0\<close>: row \<open>i\<close>, or IndexError.\<close>

definition getitem :: "mat \<Rightarrow> nat \<Rightarrow> error + vec" where
  "getitem A i = (if i < nrows A then Inr (mrows A ! i) else Inl IndexError)"

definition inner_prod :: "vec \<Rightarrow> vec \<Rightarrow> real" where
  "inner_prod u v = sum_list (map2 (*) u v)"

definition matvec :: "mat \<Rightarrow> vec \<Rightarrow> vec" where
  "matvec A v = map (\<lambda>r. inner_prod r v) (mrows A)"

text \<open>\<open>A.dot(v)\<close> for two-dimensional \<open>A\<close> and one-dimensional \<open>v\<close>: the shapes
  \<open>(n, c)\<close> and \<open>(c,)\<close> must agree, or numpy raises ValueError.\<close>

definition dot_mv :: "mat \<Rightarrow> vec \<Rightarrow> error + vec" where
  "dot_mv A v = (if ncols A = length v then Inr (matvec A v) else Inl ValueError)"

definition matmul :: "mat \<Rightarrow> mat \<Rightarrow> mat" where
  "matmul A B =
     Mat (nrows A) (ncols B)
       (map (\<lambda>r. map (\<lambda>c. inner_prod r c) (mrows (mat_T B))) (mrows A))"

definition scale_mat :: "real \<Rightarrow> mat \<Rightarrow> mat" where
  "scale_mat a A = Mat (nrows A) (ncols A) (map (map ((*) a)) (mrows A))"

text \<open>\<open>a.dot(b)\<close> on arrays of dimension at most two, as \<open>numpy.dot\<close> documents it:
  a scalar operand multiplies, two vectors give their inner product, otherwise the last
  axis of \<open>a\<close> is summed against the first axis of \<open>b\<close>.\<close>

fun dot :: "ndarray \<Rightarrow> ndarray \<Rightarrow> error + ndarray" where
  "dot (Arr0 a) (Arr0 b) = Inr (Arr0 (a * b))"
| "dot (Arr0 a) (Arr1 v) = Inr (Arr1 (map ((*) a) v))"
| "dot (Arr0 a) (Arr2 B) = Inr (Arr2 (scale_mat a B))"
| "dot (Arr1 u) (Arr0 b) = Inr (Arr1 (map ((*) b) u))"
| "dot (Arr2 A) (Arr0 b) = Inr (Arr2 (scale_mat b A))"
| "dot (Arr1 u) (Arr1 v) =
     (if length u = length v then Inr (Arr0 (inner_prod u v)) else Inl ValueError)"
| "dot (Arr2 A) (Arr1 v) =
     (case dot_mv A v of Inl e \<Rightarrow> Inl e | Inr x \<Rightarrow> Inr (Arr1 x))"
| "dot (Arr1 u) (Arr2 B) =
     (if length u = nrows B then Inr (Arr1 (map (inner_prod u) (mrows (mat_T B))))
      else Inl ValueError)"
| "dot (Arr2 A) (Arr2 B) =
     (if ncols A = nrows B then Inr (Arr2 (matmul A B)) else Inl ValueError)"

text \<open>
  \<open>ratings - guess\<close> with numpy's broadcasting: the shapes are aligned at the last axis,
  and along each axis the lengths must be equal or one of them 1 (that operand is then
  repeated along the axis).
\<close>

fun as_2d :: "ndarray \<Rightarrow> mat" where
  "as_2d (Arr0 a) = Mat 1 1 [[a]]"
| "as_2d (Arr1 v) = Mat 1 (length v) [v]"
| "as_2d (Arr2 A) = A"

definition bc_dim :: "nat \<Rightarrow> nat \<Rightarrow> nat option" where
  "bc_dim a b = (if a = b then Some a else if b = 1 then Some a
                 else if a = 1 then Some b else None)"

definition bc_get :: "mat \<Rightarrow> nat \<Rightarrow> nat \<Rightarrow> real" where
  "bc_get A i j =
     mrows A ! (if nrows A = 1 then 0 else i) ! (if ncols A = 1 then 0 else j)"

definition subtract :: "mat \<Rightarrow> ndarray \<Rightarrow> error + mat" where
  "subtract A b =
     (let B = as_2d b in
      case bc_dim (nrows A) (nrows B) of
        None \<Rightarrow> Inl ValueError
      | Some n \<Rightarrow>
         (case bc_dim (ncols A) (ncols B) of
            None \<Rightarrow> Inl ValueError
          | Some c \<Rightarrow>
             Inr (Mat n c (map (\<lambda>i. map (\<lambda>j. bc_get A i j - bc_get B i j) [0..<c])
                             [0..<n]))))"

text \<open>\<open>d**2\<close>, elementwise, and \<open>np.sum\<close> over all entries.\<close>

definition square :: "mat \<Rightarrow> mat" where
  "square A = Mat (nrows A) (ncols A) (map (map (\<lambda>x. x * x)) (mrows A))"

definition np_sum :: "mat \<Rightarrow> real" where
  "np_sum A = sum_list (map sum_list (mrows A))"

text \<open>
  \<open>np.asarray\<close> of a Python list of one-dimensional arrays. The empty list gives the
  one-dimensional array of shape \<open>(0,)\<close>. In \<open>als\<close> the vectors of one list are all
  products with one and the same matrix, hence of one length, which is the column
  count of the result.
\<close>

fun asarray :: "vec list \<Rightarrow> ndarray" where
  "asarray [] = Arr1 []"
| "asarray (v # vs) = Arr2 (Mat (Suc (length vs)) (length v) (v # vs))"

text \<open>
  \<open>np.linalg.pinv\<close> belongs to numpy, not to the notebook: the pseudo-inverse of a
  two-dimensional array is a parameter \<open>pinv\<close> of the model, total on two-dimensional
  arrays of real numbers (numpy's failure on entries that are not finite has no
  counterpart over the reals). The empty one-dimensional array is rejected with
  ValueError (its shape has no two trailing axes to unpack), every other array of
  lower dimension with LinAlgError.
\<close>

fun linalg_pinv :: "(mat \<Rightarrow> mat) \<Rightarrow> ndarray \<Rightarrow> error + mat" where
  "linalg_pinv pinv (Arr2 A) = Inr (pinv A)"
| "linalg_pinv pinv (Arr1 []) = Inl ValueError"
| "linalg_pinv pinv a = Inl LinAlgError"

subsection \<open>The two inner loops\<close>

text \<open>
  Both inner loops have the form
  \<^verbatim>\<open>
  for i in range(len(ratings)):
      x = np.linalg.pinv(C).dot(T[i])
      acc.append(x)
  \<close>
  with \<open>C = items\<close>, \<open>T = ratings\<close> in the first and \<open>C = new_users\<close>,
  \<open>T = ratings_cols\<close> in the second. The index list is \<open>range(len(ratings))\<close>, the
  accumulator the Python list being built; the first exception ends the loop.
\<close>

fun solve_rows ::
  "(mat \<Rightarrow> mat) \<Rightarrow> ndarray \<Rightarrow> mat \<Rightarrow> nat list \<Rightarrow> vec list \<Rightarrow> error + vec list" where
  "solve_rows pinv C T [] acc = Inr acc"
| "solve_rows pinv C T (i # is) acc =
     (case linalg_pinv pinv C of
        Inl e \<Rightarrow> Inl e
      | Inr P \<Rightarrow>
         (case getitem T i of
            Inl e \<Rightarrow> Inl e
          | Inr t \<Rightarrow>
             (case dot_mv P t of
                Inl e \<Rightarrow> Inl e
              | Inr x \<Rightarrow> solve_rows pinv C T is (acc @ [x]))))"

subsection \<open>The local variables, the loop body and the function\<close>

text \<open>
  The frame of a call: its parameters and local variables, and the numbers printed so
  far. \<open>new_users\<close> and \<open>new_items\<close> are unbound (\<open>None\<close>) until the first iteration
  assigns them an array.
\<close>

record frame =
  ratings :: mat
  users :: mat
  items :: ndarray
  ratings_cols :: mat
  new_users :: "ndarray option"
  new_items :: "ndarray option"
  stdout :: "real list"

text \<open>
  One iteration of the outer loop. The result is the exception raised, if any, and the
  frame; at an exception the frame is the one reached before the failing statement.
\<close>

definition als_body :: "(mat \<Rightarrow> mat) \<Rightarrow> frame \<Rightarrow> error option \<times> frame" where
  "als_body pinv s =
     (case solve_rows pinv (items s) (ratings s) [0..<nrows (ratings s)] [] of
        Inl e \<Rightarrow> (Some e, s)
      | Inr us \<Rightarrow>
         (let s1 = s\<lparr>new_users := Some (asarray us)\<rparr> in
          case solve_rows pinv (asarray us) (ratings_cols s1) [0..<nrows (ratings s1)] [] of
            Inl e \<Rightarrow> (Some e, s1)
          | Inr vs \<Rightarrow>
             (let s2 = s1\<lparr>new_items := Some (asarray vs)\<rparr> in
              case dot (asarray us) (nd_T (asarray vs)) of
                Inl e \<Rightarrow> (Some e, s2)
              | Inr guess \<Rightarrow>
                 (case subtract (ratings s2) guess of
                    Inl e \<Rightarrow> (Some e, s2)
                  | Inr d \<Rightarrow>
                     (None, s2\<lparr>items := asarray vs,
                                stdout := stdout s2 @ [np_sum (square d)]\<rparr>)))))"

text \<open>\<open>for _ in range(reps)\<close>: the body, \<open>n\<close> times, stopping at the first exception.\<close>

fun als_loop :: "(mat \<Rightarrow> mat) \<Rightarrow> nat \<Rightarrow> frame \<Rightarrow> error option \<times> frame" where
  "als_loop pinv 0 s = (None, s)"
| "als_loop pinv (Suc n) s =
     (case als_body pinv s of
        (Some e, s') \<Rightarrow> (Some e, s')
      | (None, s') \<Rightarrow> als_loop pinv n s')"

text \<open>
  The frame on entry, after \<open>ratings_cols = ratings.T\<close>; \<open>out\<close> is what the process
  has printed before the call.
\<close>

definition als_entry :: "real list \<Rightarrow> mat \<Rightarrow> mat \<Rightarrow> mat \<Rightarrow> frame" where
  "als_entry out R U V =
     \<lparr>ratings = R, users = U, items = Arr2 V, ratings_cols = mat_T R,
      new_users = None, new_items = None, stdout = out\<rparr>"

text \<open>
  The execution of the function up to its \<open>return\<close> statement; \<open>range(reps)\<close> is empty
  for \<open>reps \<le> 0\<close>.
\<close>

definition als_exec ::
  "(mat \<Rightarrow> mat) \<Rightarrow> real list \<Rightarrow> mat \<Rightarrow> mat \<Rightarrow> mat \<Rightarrow> int \<Rightarrow> error option \<times> frame" where
  "als_exec pinv out R U V reps = als_loop pinv (nat reps) (als_entry out R U V)"

text \<open>
  \<open>return new_users, new_items\<close>: reading a local variable that was never assigned
  raises UnboundLocalError. The result of a call is what it printed and either the
  exception or the returned pair.
\<close>

definition als_return :: "error option \<times> frame \<Rightarrow> error + ndarray \<times> ndarray" where
  "als_return r =
     (case r of
        (Some e, s) \<Rightarrow> Inl e
      | (None, s) \<Rightarrow>
         (case new_users s of
            None \<Rightarrow> Inl UnboundLocalError
          | Some u \<Rightarrow>
             (case new_items s of
                None \<Rightarrow> Inl UnboundLocalError
              | Some v \<Rightarrow> Inr (u, v))))"

definition als ::
  "(mat \<Rightarrow> mat) \<Rightarrow> mat \<Rightarrow> mat \<Rightarrow> mat \<Rightarrow> int \<Rightarrow> real list \<times> (error + ndarray \<times> ndarray)" where
  "als pinv R U V reps =
     (let r = als_exec pinv [] R U V reps in (stdout (snd r), als_return r))"

subsection \<open>A concrete pseudo-inverse for single-factor runs\<close>

text \<open>
  For a matrix \<open>A\<close> of rank at most one the Moore-Penrose inverse is the transpose
  divided by the sum of the squares of the entries (and the transpose itself when \<open>A\<close>
  is zero). Every matrix with one column (\<open>k = 1\<close>) has rank at most one, so this
  function runs the model on concrete single-factor inputs. It has the shape of numpy's
  result; its entries are exact where numpy's are rounded.
\<close>

definition pinv_rank1 :: "mat \<Rightarrow> mat" where
  "pinv_rank1 A =
     (let q = np_sum (square A) in
      if q = 0 then mat_T A else scale_mat (1 / q) (mat_T A))"

subsection \<open>The cut-off of small singular values\<close>

text \<open>
  \<open>np.linalg.pinv(a, rcond=1e-15)\<close> treats every singular value at or below \<open>rcond\<close>
  times the largest one as zero and inverts the others. On a diagonal matrix with
  non-negative diagonal entries the singular values are the diagonal entries, so there
  the result is again diagonal: \<open>pinv_diag\<close> is numpy's result on such matrices (it is
  not meant for any other matrix).
\<close>

definition rcond :: real where
  "rcond = 1 / 10 ^ 15"

definition diagonal :: "mat \<Rightarrow> vec" where
  "diagonal A = map (\<lambda>i. mrows A ! i ! i) [0..<min (nrows A) (ncols A)]"

definition pinv_diag :: "mat \<Rightarrow> mat" where
  "pinv_diag A =
     (let d = diagonal A; cutoff = rcond * fold max d 0 in
      Mat (ncols A) (nrows A)
        (map (\<lambda>i. map (\<lambda>j. if i = j \<and> i < length d \<and> cutoff < d ! i then 1 / d ! i else 0)
                     [0..<nrows A])
           [0..<ncols A]))"

subsection \<open>What is assumed of numpy's pseudo-inverse\<close>

text \<open>
  The shape law: the pseudo-inverse of an \<open>n \<times> c\<close> array is a \<open>c \<times> n\<close> array.
\<close>

definition pinv_shape :: "(mat \<Rightarrow> mat) \<Rightarrow> bool" where
  "pinv_shape pinv \<longleftrightarrow>
     (\<forall>A. wf_mat A \<longrightarrow>
        wf_mat (pinv A) \<and> nrows (pinv A) = ncols A \<and> ncols (pinv A) = nrows A)"

text \<open>
  The four Moore-Penrose equations, which determine the pseudo-inverse \<open>P\<close> of \<open>A\<close> in
  exact arithmetic. The matrix that \<open>np.linalg.pinv\<close> returns is computed in floating
  point, with the cut-off above: it satisfies these equations only up to rounding, and
  not at all where a singular value is cut off.
\<close>

definition is_pinv :: "mat \<Rightarrow> mat \<Rightarrow> bool" where
  "is_pinv A P \<longleftrightarrow>
     wf_mat P \<and> nrows P = ncols A \<and> ncols P = nrows A \<and>
     matmul (matmul A P) A = A \<and> matmul (matmul P A) P = P \<and>
     mat_T (matmul A P) = matmul A P \<and> mat_T (matmul P A) = matmul P A"

text \<open>The squared residual \<open>||C x - t||\<^sup>2\<close> of a least-squares problem.\<close>

definition sq_resid :: "mat \<Rightarrow> vec \<Rightarrow> vec \<Rightarrow> real" where
  "sq_resid C x t = sum_list (map (\<lambda>(a, b). (a - b) * (a - b)) (zip (matvec C x) t))"

text \<open>
  A least-squares half-step as the design describes it: the pseudo-inverse of the fixed
  factor matrix \<open>C\<close> applied to each row of the target matrix \<open>T\<close>, the solved vectors
  collected in the order of the rows of \<open>T\<close>.
\<close>

definition pinv_solve :: "(mat \<Rightarrow> mat) \<Rightarrow> mat \<Rightarrow> mat \<Rightarrow> mat" where
  "pinv_solve pinv C T = Mat (nrows T) (ncols C) (map (matvec (pinv C)) (mrows T))"

section \<open>Properties\<close>

text \<open>The equations that evaluate a run on concrete arrays.\<close>

lemmas als_unfold =
  als_def als_exec_def als_entry_def als_return_def als_body_def
  pinv_rank1_def np_sum_def square_def mat_T_def scale_mat_def getitem_def dot_mv_def
  matvec_def inner_prod_def matmul_def subtract_def bc_dim_def bc_get_def Let_def

subsection \<open>Shapes\<close>

lemma wf_mat_T [simp]: "wf_mat A \<Longrightarrow> wf_mat (mat_T A)"
  by (simp add: wf_mat_def mat_T_def list_all_iff)

lemma nrows_mat_T [simp]: "nrows (mat_T A) = ncols A"
  by (simp add: mat_T_def)

lemma ncols_mat_T [simp]: "ncols (mat_T A) = nrows A"
  by (simp add: mat_T_def)

lemma wf_scale_mat [simp]: "wf_mat (scale_mat a A) = wf_mat A"
  by (simp add: wf_mat_def scale_mat_def list_all_iff)

lemma nrows_scale_mat [simp]: "nrows (scale_mat a A) = nrows A"
  by (simp add: scale_mat_def)

lemma ncols_scale_mat [simp]: "ncols (scale_mat a A) = ncols A"
  by (simp add: scale_mat_def)

lemma pinv_rank1_shape: "pinv_shape pinv_rank1"
  by (simp add: pinv_shape_def pinv_rank1_def Let_def)

lemma wf_row_length: "wf_mat A \<Longrightarrow> i < nrows A \<Longrightarrow> length (mrows A ! i) = ncols A"
  by (simp add: wf_mat_def list_all_length)

subsection \<open>The inner loops\<close>

text \<open>
  An inner loop over a two-dimensional \<open>C\<close> completes exactly when every index is a row
  of \<open>T\<close> whose length is the column count of the pseudo-inverse; it then appends the
  products in the order of the indices.
\<close>

lemma solve_rows_Inr_iff:
  "solve_rows pinv (Arr2 C) T is acc = Inr xs \<longleftrightarrow>
     (\<forall>i\<in>set is. i < nrows T \<and> length (mrows T ! i) = ncols (pinv C)) \<and>
     xs = acc @ map (\<lambda>i. matvec (pinv C) (mrows T ! i)) is"
  by (induction "is" arbitrary: acc)
     (auto simp: getitem_def dot_mv_def split: sum.splits)

subsection \<open>What an iteration leaves alone\<close>

lemma als_body_frame:
  "ratings (snd (als_body pinv s)) = ratings s \<and>
   ratings_cols (snd (als_body pinv s)) = ratings_cols s \<and>
   users (snd (als_body pinv s)) = users s"
  by (simp add: als_body_def Let_def split: sum.splits)

lemma als_loop_frame:
  "ratings (snd (als_loop pinv n s)) = ratings s \<and>
   ratings_cols (snd (als_loop pinv n s)) = ratings_cols s \<and>
   users (snd (als_loop pinv n s)) = users s"
proof (induction n arbitrary: s)
  case 0
  show ?case by simp
next
  case (Suc n)
  obtain e s' where b: "als_body pinv s = (e, s')" by (cases "als_body pinv s")
  have inv: "ratings s' = ratings s \<and> ratings_cols s' = ratings_cols s \<and> users s' = users s"
    using als_body_frame [of pinv s] b by simp
  show ?case
  proof (cases e)
    case None
    with b inv Suc.IH [of s'] show ?thesis by simp
  next
    case (Some x)
    with b inv show ?thesis by simp
  qed
qed

text \<open>The body never reads \<open>users\<close>: changing it changes nothing else.\<close>

lemma als_body_users:
  "als_body pinv (s\<lparr>users := u\<rparr>) =
     (fst (als_body pinv s), (snd (als_body pinv s))\<lparr>users := u\<rparr>)"
  by (simp add: als_body_def Let_def split: sum.splits)

lemma als_loop_users:
  "als_loop pinv n (s\<lparr>users := u\<rparr>) =
     (fst (als_loop pinv n s), (snd (als_loop pinv n s))\<lparr>users := u\<rparr>)"
proof (induction n arbitrary: s)
  case 0
  show ?case by simp
next
  case (Suc n)
  obtain e s' where b: "als_body pinv s = (e, s')" by (cases "als_body pinv s")
  then have b': "als_body pinv (s\<lparr>users := u\<rparr>) = (e, s'\<lparr>users := u\<rparr>)"
    by (simp add: als_body_users)
  show ?case
    using b b' Suc.IH [of s'] by (cases e) simp_all
qed

text \<open>The body only appends to what was printed before.\<close>

lemma als_body_stdout:
  "als_body pinv (s\<lparr>stdout := out @ stdout s\<rparr>) =
     (fst (als_body pinv s),
      (snd (als_body pinv s))\<lparr>stdout := out @ stdout (snd (als_body pinv s))\<rparr>)"
  by (simp add: als_body_def Let_def split: sum.splits)

lemma als_loop_stdout:
  "als_loop pinv n (s\<lparr>stdout := out @ stdout s\<rparr>) =
     (fst (als_loop pinv n s),
      (snd (als_loop pinv n s))\<lparr>stdout := out @ stdout (snd (als_loop pinv n s))\<rparr>)"
proof (induction n arbitrary: s)
  case 0
  show ?case by simp
next
  case (Suc n)
  obtain e s' where b: "als_body pinv s = (e, s')" by (cases "als_body pinv s")
  then have b': "als_body pinv (s\<lparr>stdout := out @ stdout s\<rparr>) =
      (e, s'\<lparr>stdout := out @ stdout s'\<rparr>)"
    by (simp add: als_body_stdout)
  show ?case
    using b b' Suc.IH [of s'] by (cases e) simp_all
qed

lemma als_return_users: "als_return (e, s\<lparr>users := x\<rparr>) = als_return (e, s)"
  by (simp add: als_return_def split: option.splits)

text \<open>
  C9: the ratings matrix is only read. However the call ends, by \<open>return\<close> or by an
  exception, the frame still holds the ratings matrix that was passed in, and
  \<open>ratings_cols\<close> is still its transpose, taken once on entry.
\<close>

theorem als_ratings_unchanged:
  "ratings (snd (als_exec pinv out R U V reps)) = R \<and>
   ratings_cols (snd (als_exec pinv out R U V reps)) = mat_T R"
  using als_loop_frame [of pinv "nat reps" "als_entry out R U V"]
  by (simp add: als_exec_def als_entry_def)

text \<open>
  C10: the result of \<open>als\<close> does not depend on the \<open>users\<close> argument. Two calls that
  differ only in \<open>users\<close> print the same errors and return the same pair, or raise the
  same exception.
\<close>

theorem als_users_unread: "als pinv R U V reps = als pinv R U' V reps"
proof -
  have "als_entry [] R U' V = (als_entry [] R U V)\<lparr>users := U'\<rparr>"
    by (simp add: als_entry_def)
  then have "als_exec pinv [] R U' V reps =
      (fst (als_exec pinv [] R U V reps), (snd (als_exec pinv [] R U V reps))\<lparr>users := U'\<rparr>)"
    by (simp add: als_exec_def als_loop_users)
  then show ?thesis
    by (simp add: als_def Let_def als_return_users)
qed

subsection \<open>The printed errors\<close>

lemma np_sum_square_nonneg: "0 \<le> np_sum (square d)"
  by (auto simp: np_sum_def square_def intro!: sum_list_nonneg)

lemma als_body_nonneg:
  "\<forall>e\<in>set (stdout s). 0 \<le> e \<Longrightarrow> \<forall>e\<in>set (stdout (snd (als_body pinv s))). 0 \<le> e"
  by (auto simp: als_body_def Let_def np_sum_square_nonneg split: sum.splits)

lemma als_loop_nonneg:
  "\<forall>e\<in>set (stdout s). 0 \<le> e \<Longrightarrow> \<forall>e\<in>set (stdout (snd (als_loop pinv n s))). 0 \<le> e"
proof (induction n arbitrary: s)
  case 0
  then show ?case by simp
next
  case (Suc n)
  obtain e s' where b: "als_body pinv s = (e, s')" by (cases "als_body pinv s")
  have inv: "\<forall>e\<in>set (stdout s'). 0 \<le> e"
    using als_body_nonneg [OF Suc.prems, of pinv] b by simp
  show ?case
  proof (cases e)
    case None
    with b Suc.IH [OF inv] show ?thesis by simp
  next
    case (Some x)
    with b inv show ?thesis by simp
  qed
qed

text \<open>
  Over the real numbers every number a call prints is a sum of squares, hence
  non-negative. (A floating-point run can print NaN, which is outside this model.)
\<close>

lemma als_error_nonneg: "e \<in> set (fst (als pinv R U V reps)) \<Longrightarrow> 0 \<le> e"
  using als_loop_nonneg [of "als_entry [] R U V" pinv "nat reps"]
  by (simp add: als_def Let_def als_exec_def als_entry_def)

subsection \<open>More on shapes\<close>

lemma asarray_nonempty:
  "vs \<noteq> [] \<Longrightarrow> asarray vs = Arr2 (Mat (length vs) (length (hd vs)) vs)"
  by (cases vs) simp_all

lemma asarray_Arr2: "asarray vs = Arr2 Q \<Longrightarrow> nrows Q = length vs"
  by (cases vs) auto

lemma length_matvec [simp]: "length (matvec A v) = length (mrows A)"
  by (simp add: matvec_def)

lemma nrows_matmul [simp]: "nrows (matmul A B) = nrows A"
  by (simp add: matmul_def)

lemma ncols_matmul [simp]: "ncols (matmul A B) = ncols B"
  by (simp add: matmul_def)

lemma wf_matmul: "wf_mat A \<Longrightarrow> wf_mat (matmul A B)"
  by (simp add: wf_mat_def matmul_def list_all_iff mat_T_def)

lemma nrows_pinv_solve [simp]: "nrows (pinv_solve pinv C T) = nrows T"
  by (simp add: pinv_solve_def)

lemma ncols_pinv_solve [simp]: "ncols (pinv_solve pinv C T) = ncols C"
  by (simp add: pinv_solve_def)

lemma wf_pinv_solve:
  assumes ps: "pinv_shape pinv" and C: "wf_mat C" and T: "wf_mat T"
  shows "wf_mat (pinv_solve pinv C T)"
proof -
  have P: "wf_mat (pinv C)" "nrows (pinv C) = ncols C" using ps C by (simp_all add: pinv_shape_def)
  then show ?thesis using T by (simp add: pinv_solve_def wf_mat_def list_all_iff)
qed

lemma pinv_solve_asarray:
  assumes ps: "pinv_shape pinv" and C: "wf_mat C" and T: "wf_mat T" and m: "0 < nrows T"
  shows "asarray (map (matvec (pinv C)) (mrows T)) = Arr2 (pinv_solve pinv C T)"
proof -
  have P: "wf_mat (pinv C)" "nrows (pinv C) = ncols C" using ps C by (simp_all add: pinv_shape_def)
  have ne: "mrows T \<noteq> []" using T m by (auto simp: wf_mat_def)
  have "length (hd (map (matvec (pinv C)) (mrows T))) = ncols C"
    using ne P by (simp add: hd_map wf_mat_def)
  then show ?thesis
    using ne T by (simp add: asarray_nonempty pinv_solve_def wf_mat_def)
qed


subsection \<open>The inner loops on arrays of matching and of mismatched shape\<close>

lemma solve_rows_length:
  "solve_rows pinv C T is acc = Inr xs \<Longrightarrow> length xs = length acc + length is"
  by (induction "is" arbitrary: acc) (auto split: sum.splits)


text \<open>
  Over the first \<open>n\<close> rows of a target whose rows are as long as \<open>C\<close> has rows, the
  loop completes.
\<close>

lemma solve_rows_all:
  assumes ps: "pinv_shape pinv" and C: "wf_mat C" and T: "wf_mat T"
    and n: "n \<le> nrows T" and c: "ncols T = nrows C"
  shows "solve_rows pinv (Arr2 C) T [0..<n] [] = Inr (map (matvec (pinv C)) (take n (mrows T)))"
proof -
  have P: "ncols (pinv C) = nrows C" using ps C by (simp add: pinv_shape_def)
  have "map (\<lambda>i. matvec (pinv C) (mrows T ! i)) [0..<n] = map (matvec (pinv C)) (take n (mrows T))"
    using T n by (simp add: list_eq_iff_nth_eq wf_mat_def)
  then show ?thesis
    using T n c P by (simp add: solve_rows_Inr_iff wf_row_length)
qed


text \<open>
  When the rows of the target are not as long as \<open>C\<close> has rows, the first product
  already raises ValueError.
\<close>

lemma solve_rows_mismatch:
  assumes ps: "pinv_shape pinv" and T: "wf_mat T" and C: "wf_mat C"
    and m: "0 < n" "0 < nrows T" and ne: "nrows C \<noteq> ncols T"
  shows "solve_rows pinv (Arr2 C) T [0..<n] [] = Inl ValueError"
proof -
  have P: "ncols (pinv C) = nrows C" using ps C by (simp add: pinv_shape_def)
  have l: "length (mrows T ! 0) = ncols T" using T m by (simp add: wf_row_length)
  have u: "[0..<n] = 0 # [1..<n]" using m by (simp add: upt_conv_Cons)
  show ?thesis
    using m ne P l by (simp add: u getitem_def dot_mv_def)
qed


subsection \<open>One iteration, and many, on a square ratings matrix\<close>

lemma als_body_square:
  assumes ps: "pinv_shape pinv" and R: "wf_mat (ratings s)" and m: "0 < nrows (ratings s)"
    and sq: "nrows (ratings s) = ncols (ratings s)"
    and rc: "ratings_cols s = mat_T (ratings s)"
    and V: "items s = Arr2 V" "wf_mat V" "nrows V = ncols (ratings s)"
  shows "\<exists>err. als_body pinv s =
           (None, s\<lparr>new_users := Some (Arr2 (pinv_solve pinv V (ratings s))),
                    new_items := Some (Arr2 (pinv_solve pinv (pinv_solve pinv V (ratings s))
                                              (mat_T (ratings s)))),
                    items := Arr2 (pinv_solve pinv (pinv_solve pinv V (ratings s))
                                              (mat_T (ratings s))),
                    stdout := stdout s @ [err]\<rparr>)"
proof -
  let ?R = "ratings s"
  let ?Un = "pinv_solve pinv V ?R"
  let ?Vn = "pinv_solve pinv ?Un (mat_T ?R)"
  have lenR: "length (mrows ?R) = nrows ?R" using R by (simp add: wf_mat_def)
  have 1: "solve_rows pinv (items s) ?R [0..<nrows ?R] [] = Inr (map (matvec (pinv V)) (mrows ?R))"
    using solve_rows_all [OF ps V(2) R, of "nrows ?R"] V lenR by simp
  have 2: "asarray (map (matvec (pinv V)) (mrows ?R)) = Arr2 ?Un"
    by (rule pinv_solve_asarray [OF ps V(2) R m])
  have Un: "wf_mat ?Un" by (rule wf_pinv_solve [OF ps V(2) R])
  have RT: "wf_mat (mat_T ?R)" using R by simp
  have lenRT: "length (mrows (mat_T ?R)) = nrows ?R"
    using sq by (simp add: mat_T_def)
  have 3: "solve_rows pinv (Arr2 ?Un) (mat_T ?R) [0..<nrows ?R] [] =
      Inr (map (matvec (pinv ?Un)) (mrows (mat_T ?R)))"
    using solve_rows_all [OF ps Un RT, of "nrows ?R"] sq lenRT by simp
  have 4: "asarray (map (matvec (pinv ?Un)) (mrows (mat_T ?R))) = Arr2 ?Vn"
    using pinv_solve_asarray [OF ps Un RT] m sq by simp
  have 5: "dot (Arr2 ?Un) (nd_T (Arr2 ?Vn)) = Inr (Arr2 (matmul ?Un (mat_T ?Vn)))"
    by simp
  have 6: "\<exists>d. subtract ?R (Arr2 (matmul ?Un (mat_T ?Vn))) = Inr d"
    using sq by (simp add: subtract_def bc_dim_def)
  then obtain d where d: "subtract ?R (Arr2 (matmul ?Un (mat_T ?Vn))) = Inr d" ..
  show ?thesis
    by (rule exI [of _ "np_sum (square d)"])
       (simp add: als_body_def rc 1 2 3 4 5 d del: nd_T.simps dot.simps)
qed

lemma als_loop_square:
  assumes ps: "pinv_shape pinv" and R: "wf_mat (ratings s)" and m: "0 < nrows (ratings s)"
    and sq: "nrows (ratings s) = ncols (ratings s)"
    and rc: "ratings_cols s = mat_T (ratings s)"
    and V: "items s = Arr2 V" "wf_mat V" "nrows V = ncols (ratings s)"
  shows "\<exists>s' V'. als_loop pinv n s = (None, s') \<and> items s' = Arr2 V' \<and> wf_mat V' \<and>
           nrows V' = ncols (ratings s) \<and>
           (0 < n \<longrightarrow> new_users s' \<noteq> None \<and> new_items s' \<noteq> None)"
  using R m sq rc V
proof (induction n arbitrary: s V)
  case 0
  then show ?case by simp
next
  case (Suc n)
  let ?Un = "pinv_solve pinv V (ratings s)"
  let ?Vn = "pinv_solve pinv ?Un (mat_T (ratings s))"
  obtain err where b: "als_body pinv s =
     (None, s\<lparr>new_users := Some (Arr2 ?Un), new_items := Some (Arr2 ?Vn),
              items := Arr2 ?Vn, stdout := stdout s @ [err]\<rparr>)"
    using als_body_square [OF ps Suc.prems] by blast
  let ?s' = "s\<lparr>new_users := Some (Arr2 ?Un), new_items := Some (Arr2 ?Vn),
              items := Arr2 ?Vn, stdout := stdout s @ [err]\<rparr>"
  have Un: "wf_mat ?Un" by (rule wf_pinv_solve [OF ps Suc.prems(6) Suc.prems(1)])
  have Vn: "wf_mat ?Vn" using wf_pinv_solve [OF ps Un] Suc.prems(1) by simp
  have "\<exists>s'' V'. als_loop pinv n ?s' = (None, s'') \<and> items s'' = Arr2 V' \<and> wf_mat V' \<and>
           nrows V' = ncols (ratings ?s') \<and>
           (0 < n \<longrightarrow> new_users s'' \<noteq> None \<and> new_items s'' \<noteq> None)"
    using Suc.prems Vn by (intro Suc.IH [of ?s' ?Vn]) simp_all
  then obtain s'' V' where l: "als_loop pinv n ?s' = (None, s'')" "items s'' = Arr2 V'"
     "wf_mat V'" "nrows V' = ncols (ratings s)"
     "0 < n \<longrightarrow> new_users s'' \<noteq> None \<and> new_items s'' \<noteq> None"
    by auto
  have nu: "new_users s'' \<noteq> None \<and> new_items s'' \<noteq> None"
  proof (cases n)
    case 0
    with l(1) show ?thesis by auto
  next
    case (Suc k)
    with l(5) show ?thesis by simp
  qed
  show ?case
    using b l nu by simp
qed

lemma als_body_mismatch:
  assumes ps: "pinv_shape pinv" and R: "wf_mat (ratings s)" and m: "0 < nrows (ratings s)"
    and V: "items s = Arr2 V" "wf_mat V" "nrows V \<noteq> ncols (ratings s)"
  shows "als_body pinv s = (Some ValueError, s)"
  using solve_rows_mismatch [OF ps R V(2) m m V(3)] V(1)
  by (simp add: als_body_def)


text \<open>
  C2, counterexample: the ratings matrix is \<open>1 \<times> 1\<close> and the initial item factors are
  \<open>1 \<times> 1\<close>, so the initial user factors should be \<open>1 \<times> 1\<close>; they are \<open>2 \<times> 1\<close>, and
  the call returns normally.
\<close>

theorem als_wrong_users_accepted:
  "als pinv_rank1 (Mat 1 1 [[3]]) (Mat 2 1 [[1], [1]]) (Mat 1 1 [[1]]) 1 =
     ([0], Inr (Arr2 (Mat 1 1 [[3]]), Arr2 (Mat 1 1 [[1]])))"
  by (simp add: als_unfold upt_rec)


text \<open>
  C2, as amended: the function has no shape check of its own; what fails is numpy's
  \<open>dot\<close>. On a ratings matrix with at least one row and with \<open>reps \<ge> 1\<close>, initial
  item factors whose row count is not the column count of the ratings matrix make the
  call raise ValueError in the first user solve: nothing is printed and nothing is
  returned. The shape of the initial user factors is never checked: when the ratings
  matrix is square and the item factors have its row count, the call returns whatever
  the \<open>users\<close> argument is.
\<close>

theorem als_shape_check:
  assumes "pinv_shape pinv" and "wf_mat R" and "wf_mat V" and "0 < nrows R" and "0 < reps"
  shows "(nrows V \<noteq> ncols R \<longrightarrow> als pinv R U V reps = ([], Inl ValueError)) \<and>
         (nrows V = ncols R \<and> nrows R = ncols R \<longrightarrow>
            (\<exists>P Q. snd (als pinv R U V reps) = Inr (P, Q)))"
proof (intro conjI impI)
  assume ne: "nrows V \<noteq> ncols R"
  obtain n where n: "nat reps = Suc n" using assms(5) by (cases "nat reps") auto
  have "als_body pinv (als_entry [] R U V) = (Some ValueError, als_entry [] R U V)"
    using assms ne by (intro als_body_mismatch [of _ _ V]) (simp_all add: als_entry_def)
  then show "als pinv R U V reps = ([], Inl ValueError)"
    by (simp add: als_def als_exec_def n als_return_def) (simp add: als_entry_def)
next
  assume eq: "nrows V = ncols R \<and> nrows R = ncols R"
  have "\<exists>s' V'. als_loop pinv (nat reps) (als_entry [] R U V) = (None, s') \<and> items s' = Arr2 V' \<and>
          wf_mat V' \<and> nrows V' = ncols (ratings (als_entry [] R U V)) \<and>
          (0 < nat reps \<longrightarrow> new_users s' \<noteq> None \<and> new_items s' \<noteq> None)"
    using assms eq by (intro als_loop_square [of _ _ V]) (simp_all add: als_entry_def)
  then obtain s' where "als_loop pinv (nat reps) (als_entry [] R U V) = (None, s')"
      "new_users s' \<noteq> None" "new_items s' \<noteq> None"
    using assms(5) by auto
  then show "\<exists>P Q. snd (als pinv R U V reps) = Inr (P, Q)"
    by (auto simp: als_def als_exec_def als_return_def)
qed

theorem als_shape_check_witness:
  "als pinv_rank1 (Mat 1 1 [[3]]) (Mat 1 1 [[1]]) (Mat 2 1 [[1], [1]]) 1 = ([], Inl ValueError) \<and>
   (\<exists>P Q. snd (als pinv_rank1 (Mat 1 1 [[3]]) (Mat 2 1 [[1], [1]]) (Mat 1 1 [[1]]) 1) = Inr (P, Q))"
proof -
  have w1: "wf_mat (Mat 1 1 [[3]])" and w2: "wf_mat (Mat 2 1 [[1], [1]])" and w3: "wf_mat (Mat 1 1 [[1]])"
    by (simp_all add: wf_mat_def)
  have a: "als pinv_rank1 (Mat 1 1 [[3]]) (Mat 1 1 [[1]]) (Mat 2 1 [[1], [1]]) 1 = ([], Inl ValueError)"
    using als_shape_check [OF pinv_rank1_shape w1 w2, of 1 "Mat 1 1 [[1]]"] by simp
  have b: "\<exists>P Q. snd (als pinv_rank1 (Mat 1 1 [[3]]) (Mat 2 1 [[1], [1]]) (Mat 1 1 [[1]]) 1) = Inr (P, Q)"
    using als_shape_check [OF pinv_rank1_shape w1 w3, of 1 "Mat 2 1 [[1], [1]]"] by simp
  show ?thesis using a b by simp
qed


subsection \<open>A single pass\<close>

text \<open>
  C8, counterexample: with an iteration count of 0 the call returns no factor matrices;
  it raises UnboundLocalError at the \<open>return\<close> statement.
\<close>

theorem als_zero_reps_raises:
  "als pinv_rank1 (Mat 3 3 [[3, 3, 3], [3, 3, 3], [3, 3, 3]]) (Mat 3 1 [[1], [1], [1]])
      (Mat 3 1 [[1], [1], [1]]) 0 = ([], Inl UnboundLocalError)"
  by (simp add: als_unfold)


text \<open>
  C8, as amended: with an iteration count of 1, on a non-empty square ratings matrix
  and initial item factors of matching row count, the returned user factors are the
  pseudo-inverse of the initial item factors applied to each ratings row, and the
  returned item factors are the pseudo-inverse of those user factors applied to each
  ratings column. With an iteration count of 0 the call raises UnboundLocalError.
\<close>

theorem als_single_pass:
  assumes "pinv_shape pinv" and "wf_mat R" and "wf_mat V" and "0 < nrows R"
    and "nrows V = ncols R" and "nrows R = ncols R"
  shows "snd (als pinv R U V 1) =
           Inr (Arr2 (pinv_solve pinv V R),
                Arr2 (pinv_solve pinv (pinv_solve pinv V R) (mat_T R))) \<and>
         snd (als pinv R U V 0) = Inl UnboundLocalError"
proof -
  have "\<exists>err. als_body pinv (als_entry [] R U V) =
      (None, (als_entry [] R U V)\<lparr>new_users := Some (Arr2 (pinv_solve pinv V (ratings (als_entry [] R U V)))),
                    new_items := Some (Arr2 (pinv_solve pinv (pinv_solve pinv V (ratings (als_entry [] R U V)))
                                              (mat_T (ratings (als_entry [] R U V))))),
                    items := Arr2 (pinv_solve pinv (pinv_solve pinv V (ratings (als_entry [] R U V)))
                                              (mat_T (ratings (als_entry [] R U V)))),
                    stdout := stdout (als_entry [] R U V) @ [err]\<rparr>)"
    using assms by (intro als_body_square) (simp_all add: als_entry_def)
  then obtain err where "als_body pinv (als_entry [] R U V) =
      (None, (als_entry [] R U V)\<lparr>new_users := Some (Arr2 (pinv_solve pinv V R)),
                    new_items := Some (Arr2 (pinv_solve pinv (pinv_solve pinv V R) (mat_T R))),
                    items := Arr2 (pinv_solve pinv (pinv_solve pinv V R) (mat_T R)),
                    stdout := stdout (als_entry [] R U V) @ [err]\<rparr>)"
    by (auto simp: als_entry_def)
  then have 1: "snd (als pinv R U V 1) =
           Inr (Arr2 (pinv_solve pinv V R),
                Arr2 (pinv_solve pinv (pinv_solve pinv V R) (mat_T R)))"
    by (simp add: als_def als_exec_def als_return_def)
  have 0: "snd (als pinv R U V 0) = Inl UnboundLocalError"
    by (simp add: als_def als_exec_def als_return_def als_entry_def)
  show ?thesis using 0 1 by simp
qed

theorem als_single_pass_witness:
  "snd (als pinv_rank1 (Mat 3 3 [[3, 3, 3], [3, 3, 3], [3, 3, 3]]) (Mat 3 1 [[1], [1], [1]])
      (Mat 3 1 [[1], [1], [1]]) 1) =
     Inr (Arr2 (Mat 3 1 [[3], [3], [3]]), Arr2 (Mat 3 1 [[1], [1], [1]])) \<and>
   snd (als pinv_rank1 (Mat 3 3 [[3, 3, 3], [3, 3, 3], [3, 3, 3]]) (Mat 3 1 [[1], [1], [1]])
      (Mat 3 1 [[1], [1], [1]]) 0) = Inl UnboundLocalError"
proof -
  have w: "wf_mat (Mat 3 3 [[3, 3, 3], [3, 3, 3], [3, 3, 3]])" "wf_mat (Mat 3 1 [[1], [1], [1]])"
    by (simp_all add: wf_mat_def)
  show ?thesis
    using als_single_pass [OF pinv_rank1_shape w, of "Mat 3 1 [[1], [1], [1]]"]
    by (simp add: pinv_solve_def pinv_rank1_def np_sum_def square_def mat_T_def scale_mat_def
          matvec_def inner_prod_def upt_rec)
qed


subsection \<open>The last iteration\<close>

lemma als_loop_Suc_end:
  "als_loop pinv (Suc n) s =
     (case als_loop pinv n s of
        (Some e, s') \<Rightarrow> (Some e, s')
      | (None, s') \<Rightarrow> als_body pinv s')"
proof (induction n arbitrary: s)
  case 0
  show ?case by (cases "als_body pinv s") (auto split: option.splits)
next
  case (Suc n)
  obtain e s' where b: "als_body pinv s = (e, s')" by (cases "als_body pinv s")
  show ?case
  proof (cases e)
    case None
    have "als_loop pinv (Suc (Suc n)) s = als_loop pinv (Suc n) s'"
      using b None by simp
    also have "\<dots> = (case als_loop pinv n s' of
        (Some e, s'') \<Rightarrow> (Some e, s'') | (None, s'') \<Rightarrow> als_body pinv s'')"
      by (rule Suc.IH)
    also have "als_loop pinv n s' = als_loop pinv (Suc n) s"
      using b None by simp
    finally show ?thesis .
  next
    case (Some x)
    with b show ?thesis by simp
  qed
qed

lemma als_body_None:
  assumes "als_body pinv s = (None, s')"
  shows "\<exists>us vs. solve_rows pinv (items s) (ratings s) [0..<nrows (ratings s)] [] = Inr us \<and>
           solve_rows pinv (asarray us) (ratings_cols s) [0..<nrows (ratings s)] [] = Inr vs \<and>
           new_users s' = Some (asarray us) \<and> new_items s' = Some (asarray vs) \<and>
           items s' = asarray vs"
  using assms by (auto simp: als_body_def Let_def split: sum.splits)

lemma als_loop_items:
  "als_loop pinv n s = (None, s') \<Longrightarrow> 0 < n \<Longrightarrow> new_items s' = Some (items s')"
proof (induction n arbitrary: s')
  case 0
  then show ?case by simp
next
  case (Suc n)
  obtain e t where l: "als_loop pinv n s = (e, t)" by (cases "als_loop pinv n s")
  have e: "e = None" and b: "als_body pinv t = (None, s')"
    using Suc.prems(1) l unfolding als_loop_Suc_end by (cases e; simp)+
  show ?case using als_body_None [OF b] by auto
qed


text \<open>The frame before the last iteration, and what the last iteration computes.\<close>

lemma als_last_iteration:
  assumes "1 \<le> reps" and "als pinv R U V reps = (out, Inr (P, Q))"
  shows "\<exists>s us vs. als_exec pinv [] R U V (reps - 1) = (None, s) \<and>
           items s = (if reps = 1 then Arr2 V else the (new_items s)) \<and>
           solve_rows pinv (items s) R [0..<nrows R] [] = Inr us \<and> P = asarray us \<and>
           solve_rows pinv P (mat_T R) [0..<nrows R] [] = Inr vs \<and> Q = asarray vs"
proof -
  obtain n where n: "nat reps = Suc n" "nat (reps - 1) = n"
    using assms(1) by (cases "nat reps") auto
  let ?s0 = "als_entry [] R U V"
  obtain e s where l: "als_loop pinv n ?s0 = (e, s)" by (cases "als_loop pinv n ?s0")
  obtain e' s' where l': "als_loop pinv (Suc n) ?s0 = (e', s')"
    by (cases "als_loop pinv (Suc n) ?s0")
  have ret: "als_return (e', s') = Inr (P, Q)"
    using assms(2) l' n by (simp add: als_def als_exec_def)
  then have e': "e' = None" and PQ: "new_users s' = Some P" "new_items s' = Some Q"
    by (auto simp: als_return_def split: option.splits)
  have e: "e = None" and b: "als_body pinv s = (None, s')"
    using l l' e' unfolding als_loop_Suc_end by (cases e; simp)+
  have fr: "ratings s = R" "ratings_cols s = mat_T R"
    using als_loop_frame [of pinv n ?s0] l by (simp_all add: als_entry_def)
  have it: "items s = (if reps = 1 then Arr2 V else the (new_items s))"
  proof (cases "reps = 1")
    case True
    then have "n = 0" using n by simp
    with l True show ?thesis by (auto simp: als_entry_def)
  next
    case False
    then have "0 < n" using n assms(1) by linarith
    with als_loop_items [of pinv n ?s0 s] l e False show ?thesis by simp
  qed
  show ?thesis
    using als_body_None [OF b] PQ l e n it by (auto simp: fr als_exec_def)
qed

text \<open>
  C5: for \<open>reps \<ge> 1\<close>, the pair a call returns is the pair of its last iteration. The
  first \<open>reps - 1\<close> iterations complete and leave a frame \<open>s\<close>, whose \<open>items\<close> are the
  item factors of iteration \<open>reps - 1\<close> (the initial ones when \<open>reps = 1\<close>); the returned
  user factors are solved against these, and the returned item factors against the
  returned user factors.
\<close>

theorem als_returns_last_iteration:
  assumes "1 \<le> reps" and "als pinv R U V reps = (out, Inr (P, Q))"
  shows "\<exists>s us vs. als_exec pinv [] R U V (reps - 1) = (None, s) \<and>
           items s = (if reps = 1 then Arr2 V else the (new_items s)) \<and>
           solve_rows pinv (items s) R [0..<nrows R] [] = Inr us \<and> P = asarray us \<and>
           solve_rows pinv P (mat_T R) [0..<nrows R] [] = Inr vs \<and> Q = asarray vs"
  using assms by (rule als_last_iteration)

theorem als_returns_last_iteration_witness:
  "als pinv_rank1 (Mat 3 3 [[3, 3, 3], [3, 3, 3], [3, 3, 3]]) (Mat 3 1 [[1], [1], [1]])
      (Mat 3 1 [[1], [1], [1]]) 2 =
     ([0, 0], Inr (Arr2 (Mat 3 1 [[3], [3], [3]]), Arr2 (Mat 3 1 [[1], [1], [1]]))) \<and>
   (\<exists>s us vs. als_exec pinv_rank1 [] (Mat 3 3 [[3, 3, 3], [3, 3, 3], [3, 3, 3]])
                 (Mat 3 1 [[1], [1], [1]]) (Mat 3 1 [[1], [1], [1]]) 1 = (None, s) \<and>
           items s = the (new_items s) \<and>
           solve_rows pinv_rank1 (items s) (Mat 3 3 [[3, 3, 3], [3, 3, 3], [3, 3, 3]]) [0..<3] [] = Inr us \<and>
           Arr2 (Mat 3 1 [[3], [3], [3]]) = asarray us \<and>
           solve_rows pinv_rank1 (Arr2 (Mat 3 1 [[3], [3], [3]]))
              (mat_T (Mat 3 3 [[3, 3, 3], [3, 3, 3], [3, 3, 3]])) [0..<3] [] = Inr vs \<and>
           Arr2 (Mat 3 1 [[1], [1], [1]]) = asarray vs)"
proof -
  have h: "als pinv_rank1 (Mat 3 3 [[3, 3, 3], [3, 3, 3], [3, 3, 3]]) (Mat 3 1 [[1], [1], [1]])
      (Mat 3 1 [[1], [1], [1]]) 2 =
     ([0, 0], Inr (Arr2 (Mat 3 1 [[3], [3], [3]]), Arr2 (Mat 3 1 [[1], [1], [1]])))"
    by (simp add: als_unfold upt_rec eval_nat_numeral)
  show ?thesis
    using h als_returns_last_iteration [OF _ h] by simp
qed


subsection \<open>The number of rows of the item factors\<close>

text \<open>
  C1: the item loop runs over \<open>range(len(ratings))\<close>, the number of users. On the
  \<open>1 \<times> 2\<close> ratings matrix \<open>[[1, 2]]\<close> with \<open>k = 1\<close> and initial factors of the right
  shapes (\<open>1 \<times> 1\<close> and \<open>2 \<times> 1\<close>), one iteration returns item factors with one row,
  not two.
\<close>

theorem als_item_rows_1x2:
  "als pinv_rank1 (Mat 1 2 [[1, 2]]) (Mat 1 1 [[1]]) (Mat 2 1 [[1], [1]]) 1 =
     ([1], Inr (Arr2 (Mat 1 1 [[3 / 2]]), Arr2 (Mat 1 1 [[2 / 3]])))"
  by (simp add: als_unfold upt_rec)


text \<open>In general the returned item factors have as many rows as the ratings matrix
  has rows.\<close>

lemma als_item_rows:
  assumes "1 \<le> reps" and "als pinv R U V reps = (out, Inr (P, Arr2 Q))"
  shows "nrows Q = nrows R"
proof -
  obtain s us vs where "solve_rows pinv P (mat_T R) [0..<nrows R] [] = Inr vs" "Arr2 Q = asarray vs"
    using als_last_iteration [OF assms] by blast
  then show ?thesis
    using solve_rows_length [of pinv P "mat_T R" "[0..<nrows R]" "[]" vs] asarray_Arr2 [of vs Q]
    by simp
qed


subsection \<open>In exact arithmetic the Moore-Penrose inverse solves the least-squares problem\<close>

text \<open>
  This is a fact about a matrix \<open>P\<close> that satisfies the Moore-Penrose equations for
  \<open>C\<close>, not about the matrix numpy returns.
  The argument on entries: with \<open>H = C P\<close>, the first Moore-Penrose equation \<open>H C = C\<close>
  and the symmetry of \<open>H\<close> make the residual of \<open>P t\<close> orthogonal to the range of \<open>C\<close>.
\<close>

lemma ls_core:
  fixes c p :: "nat \<Rightarrow> nat \<Rightarrow> real" and t x :: "nat \<Rightarrow> real"
  assumes P1: "\<And>i j. i < n \<Longrightarrow> j < k \<Longrightarrow>
                 (\<Sum>l<n. (\<Sum>j'<k. c i j' * p j' l) * c l j) = c i j"
    and sym: "\<And>i l. i < n \<Longrightarrow> l < n \<Longrightarrow>
                 (\<Sum>j<k. c i j * p j l) = (\<Sum>j<k. c l j * p j i)"
  shows "(\<Sum>i<n. ((\<Sum>j<k. c i j * (\<Sum>l<n. p j l * t l)) - t i)\<^sup>2)
           \<le> (\<Sum>i<n. ((\<Sum>j<k. c i j * x j) - t i)\<^sup>2)"
proof -
  define H where "H i l = (\<Sum>j<k. c i j * p j l)" for i l
  define x0 where "x0 j = (\<Sum>l<n. p j l * t l)" for j
  define e where "e i = (\<Sum>j<k. c i j * (x j - x0 j))" for i
  define r where "r i = (\<Sum>j<k. c i j * x0 j) - t i" for i
  have Cx0: "(\<Sum>j<k. c i j * x0 j) = (\<Sum>l<n. H i l * t l)" for i
  proof -
    have "(\<Sum>j<k. c i j * x0 j) = (\<Sum>j<k. \<Sum>l<n. c i j * p j l * t l)"
      by (simp add: x0_def sum_distrib_left mult.assoc)
    also have "\<dots> = (\<Sum>l<n. \<Sum>j<k. c i j * p j l * t l)" by (rule sum.swap)
    also have "\<dots> = (\<Sum>l<n. H i l * t l)" by (simp add: H_def sum_distrib_right)
    finally show ?thesis .
  qed
  have He: "(\<Sum>i<n. H l i * e i) = e l" if "l < n" for l
  proof -
    have "(\<Sum>i<n. H l i * e i) = (\<Sum>i<n. \<Sum>j<k. H l i * c i j * (x j - x0 j))"
      by (simp add: e_def sum_distrib_left mult.assoc)
    also have "\<dots> = (\<Sum>j<k. \<Sum>i<n. H l i * c i j * (x j - x0 j))" by (rule sum.swap)
    also have "\<dots> = (\<Sum>j<k. (\<Sum>i<n. H l i * c i j) * (x j - x0 j))"
      by (simp add: sum_distrib_right)
    also have "\<dots> = (\<Sum>j<k. c l j * (x j - x0 j))"
      using P1 [OF that] by (intro sum.cong) (simp_all add: H_def)
    finally show ?thesis by (simp add: e_def)
  qed
  have cross: "(\<Sum>i<n. e i * r i) = 0"
  proof -
    have "(\<Sum>i<n. e i * (\<Sum>l<n. H i l * t l)) = (\<Sum>i<n. \<Sum>l<n. t l * (H i l * e i))"
      by (simp add: sum_distrib_left mult_ac)
    also have "\<dots> = (\<Sum>l<n. \<Sum>i<n. t l * (H i l * e i))" by (rule sum.swap)
    also have "\<dots> = (\<Sum>l<n. \<Sum>i<n. t l * (H l i * e i))"
      using sym by (intro sum.cong refl) (simp add: H_def)
    also have "\<dots> = (\<Sum>l<n. t l * (\<Sum>i<n. H l i * e i))" by (simp add: sum_distrib_left)
    also have "\<dots> = (\<Sum>l<n. t l * e l)" using He by (intro sum.cong) simp_all
    finally have "(\<Sum>i<n. e i * (\<Sum>l<n. H i l * t l)) = (\<Sum>l<n. e l * t l)"
      by (simp add: mult.commute)
    then show ?thesis by (simp add: r_def Cx0 right_diff_distrib sum_subtractf)
  qed
  have split: "(\<Sum>j<k. c i j * x j) - t i = e i + r i" for i
    by (simp add: e_def r_def right_diff_distrib sum_subtractf)
  have "(\<Sum>i<n. ((\<Sum>j<k. c i j * x j) - t i)\<^sup>2) = (\<Sum>i<n. (e i)\<^sup>2 + 2 * (e i * r i) + (r i)\<^sup>2)"
    unfolding split by (intro sum.cong refl) (simp add: power2_sum)
  also have "\<dots> = (\<Sum>i<n. (e i)\<^sup>2) + 2 * (\<Sum>i<n. e i * r i) + (\<Sum>i<n. (r i)\<^sup>2)"
    by (simp only: sum.distrib sum_distrib_left)
  also have "\<dots> = (\<Sum>i<n. (e i)\<^sup>2) + (\<Sum>i<n. (r i)\<^sup>2)" by (simp add: cross)
  finally have "(\<Sum>i<n. (r i)\<^sup>2) \<le> (\<Sum>i<n. ((\<Sum>j<k. c i j * x j) - t i)\<^sup>2)"
    by (simp add: sum_nonneg)
  then show ?thesis by (simp add: r_def x0_def)
qed

lemma inner_prod_sum:
  assumes "length u = length v"
  shows "inner_prod u v = (\<Sum>i<length u. u ! i * v ! i)"
proof -
  have "map2 (*) u v = map (\<lambda>i. u ! i * v ! i) [0..<length u]"
    using assms by (intro nth_equalityI) simp_all
  then have "inner_prod u v = sum_list (map (\<lambda>i. u ! i * v ! i) [0..<length u])"
    by (simp add: inner_prod_def)
  also have "\<dots> = (\<Sum>i<length u. u ! i * v ! i)"
    by (simp add: interv_sum_list_conv_sum_set_nat lessThan_atLeast0)
  finally show ?thesis .
qed

lemma matvec_nth:
  "wf_mat A \<Longrightarrow> i < nrows A \<Longrightarrow> length v = ncols A \<Longrightarrow>
     matvec A v ! i = (\<Sum>j<ncols A. mrows A ! i ! j * v ! j)"
  using inner_prod_sum [of "mrows A ! i" v]
  by (simp add: matvec_def wf_mat_def wf_row_length)

lemma matmul_nth:
  assumes "wf_mat A" "wf_mat B" "ncols A = nrows B" "i < nrows A" "j < ncols B"
  shows "mrows (matmul A B) ! i ! j = (\<Sum>l<ncols A. mrows A ! i ! l * mrows B ! l ! j)"
proof -
  have lA: "length (mrows A) = nrows A" "length (mrows B) = nrows B"
    using assms by (simp_all add: wf_mat_def)
  have "mrows (matmul A B) ! i ! j = inner_prod (mrows A ! i) (map (\<lambda>r. r ! j) (mrows B))"
    using assms lA by (simp add: matmul_def mat_T_def)
  also have "\<dots> = (\<Sum>l<ncols A. mrows A ! i ! l * map (\<lambda>r. r ! j) (mrows B) ! l)"
    using inner_prod_sum [of "mrows A ! i" "map (\<lambda>r. r ! j) (mrows B)"] assms lA
    by (simp add: wf_row_length)
  also have "\<dots> = (\<Sum>l<ncols A. mrows A ! i ! l * mrows B ! l ! j)"
    using assms lA by (intro sum.cong refl) simp
  finally show ?thesis .
qed

lemma mat_T_nth:
  "wf_mat A \<Longrightarrow> i < nrows A \<Longrightarrow> j < ncols A \<Longrightarrow> mrows (mat_T A) ! j ! i = mrows A ! i ! j"
  by (simp add: mat_T_def wf_mat_def)

lemma sq_resid_sum:
  assumes "wf_mat C" "length x = ncols C" "length t = nrows C"
  shows "sq_resid C x t = (\<Sum>i<nrows C. ((\<Sum>j<ncols C. mrows C ! i ! j * x ! j) - t ! i)\<^sup>2)"
proof -
  have l: "length (mrows C) = nrows C" using assms by (simp add: wf_mat_def)
  have "map (\<lambda>(a, b). (a - b) * (a - b)) (zip (matvec C x) t) =
        map (\<lambda>i. ((\<Sum>j<ncols C. mrows C ! i ! j * x ! j) - t ! i)\<^sup>2) [0..<nrows C]"
    using assms l by (intro nth_equalityI) (simp_all add: matvec_nth power2_eq_square)
  then show ?thesis
    by (simp add: sq_resid_def interv_sum_list_conv_sum_set_nat lessThan_atLeast0)
qed

lemma pinv_least_squares:
  assumes C: "wf_mat C" and P: "is_pinv C P"
    and t: "length t = nrows C" and x: "length x = ncols C"
  shows "sq_resid C (matvec P t) t \<le> sq_resid C x t"
proof -
  let ?n = "nrows C" and ?k = "ncols C"
  let ?c = "\<lambda>i j. mrows C ! i ! j" and ?p = "\<lambda>j l. mrows P ! j ! l"
  have wP: "wf_mat P" "nrows P = ?k" "ncols P = ?n"
    and e1: "matmul (matmul C P) C = C" and e3: "mat_T (matmul C P) = matmul C P"
    using P by (simp_all add: is_pinv_def)
  have H: "mrows (matmul C P) ! i ! l = (\<Sum>j<?k. ?c i j * ?p j l)" if "i < ?n" "l < ?n" for i l
    using matmul_nth [OF C wP(1), of i l] wP that by simp
  have wH: "wf_mat (matmul C P)" by (rule wf_matmul [OF C])
  have P1: "(\<Sum>l<?n. (\<Sum>j'<?k. ?c i j' * ?p j' l) * ?c l j) = ?c i j" if "i < ?n" "j < ?k" for i j
  proof -
    have "mrows (matmul (matmul C P) C) ! i ! j =
        (\<Sum>l<?n. mrows (matmul C P) ! i ! l * ?c l j)"
      using matmul_nth [OF wH C, of i j] wP that by simp
    also have "\<dots> = (\<Sum>l<?n. (\<Sum>j'<?k. ?c i j' * ?p j' l) * ?c l j)"
      using H that by (intro sum.cong refl) simp
    finally show ?thesis by (simp add: e1)
  qed
  have sym: "(\<Sum>j<?k. ?c i j * ?p j l) = (\<Sum>j<?k. ?c l j * ?p j i)" if "i < ?n" "l < ?n" for i l
  proof -
    have "mrows (mat_T (matmul C P)) ! i ! l = mrows (matmul C P) ! l ! i"
      using mat_T_nth [OF wH, of l i] wP that by simp
    then show ?thesis using H that by (simp add: e3)
  qed
  have lx0: "length (matvec P t) = ?k" using wP by (simp add: wf_mat_def)
  have x0: "matvec P t ! j = (\<Sum>l<?n. ?p j l * t ! l)" if "j < ?k" for j
    using matvec_nth [OF wP(1), of j t] wP t that by simp
  have "sq_resid C (matvec P t) t =
      (\<Sum>i<?n. ((\<Sum>j<?k. ?c i j * (\<Sum>l<?n. ?p j l * t ! l)) - t ! i)\<^sup>2)"
    using x0 by (simp add: sq_resid_sum [OF C lx0 t])
  also have "\<dots> \<le> (\<Sum>i<?n. ((\<Sum>j<?k. ?c i j * x ! j) - t ! i)\<^sup>2)"
    using P1 sym by (rule ls_core)
  also have "\<dots> = sq_resid C x t"
    by (simp add: sq_resid_sum [OF C x t])
  finally show ?thesis .
qed


subsection \<open>The user half-step\<close>

text \<open>
  C4, counterexample. First: on the \<open>1 \<times> 2\<close> ratings matrix \<open>[[1, 2]]\<close> with initial
  item factors of the right shape \<open>2 \<times> 1\<close>, the item factors carried into the second
  iteration have one row, and the user loop of the second iteration raises ValueError
  instead of computing a vector. Second: for the item factors \<open>diag(1, 2^-60)\<close> numpy's
  pseudo-inverse is \<open>diag(1, 0)\<close>, the second singular value being cut off; for the
  ratings row \<open>[1, 1]\<close> the user loop computes \<open>[1, 0]\<close>, whose squared residual is 1,
  while \<open>[1, 2^60]\<close> has squared residual 0.
\<close>

theorem user_step_not_least_squares:
  "solve_rows pinv_rank1
       (items (snd (als_exec pinv_rank1 [] (Mat 1 2 [[1, 2]]) (Mat 1 1 [[1]])
                      (Mat 2 1 [[1], [1]]) 1)))
       (Mat 1 2 [[1, 2]]) [0..<1] [] = Inl ValueError \<and>
   solve_rows pinv_diag (Arr2 (Mat 2 2 [[1, 0], [0, 1 / 2 ^ 60]]))
       (Mat 2 2 [[1, 1], [1, 1]]) [0..<2] [] = Inr [[1, 0], [1, 0]] \<and>
   sq_resid (Mat 2 2 [[1, 0], [0, 1 / 2 ^ 60]]) [1, 2 ^ 60] [1, 1] <
     sq_resid (Mat 2 2 [[1, 0], [0, 1 / 2 ^ 60]]) [1, 0] [1, 1]"
proof -
  have a: "solve_rows pinv_rank1
       (items (snd (als_exec pinv_rank1 [] (Mat 1 2 [[1, 2]]) (Mat 1 1 [[1]])
                      (Mat 2 1 [[1], [1]]) 1)))
       (Mat 1 2 [[1, 2]]) [0..<1] [] = Inl ValueError"
    by (simp add: als_unfold upt_rec)
  have b: "solve_rows pinv_diag (Arr2 (Mat 2 2 [[1, 0], [0, 1 / 2 ^ 60]]))
       (Mat 2 2 [[1, 1], [1, 1]]) [0..<2] [] = Inr [[1, 0], [1, 0]]"
    by (simp add: pinv_diag_def diagonal_def rcond_def Let_def getitem_def dot_mv_def matvec_def
          inner_prod_def upt_rec)
  have c: "sq_resid (Mat 2 2 [[1, 0], [0, 1 / 2 ^ 60]]) [1, 2 ^ 60] [1, 1] <
     sq_resid (Mat 2 2 [[1, 0], [0, 1 / 2 ^ 60]]) [1, 0] [1, 1]"
    by (simp add: sq_resid_def matvec_def inner_prod_def)
  show ?thesis using a b c by simp
qed

text \<open>
  C4, as amended: in every iteration whose item factors \<open>C\<close> have as many rows as the
  ratings matrix has columns, the user half-step completes and binds \<open>new_users\<close> to the
  array of the vectors \<open>np.linalg.pinv(C) \<cdot> ratings[i]\<close>, one for each row of the ratings
  matrix and in the order of its rows. Nothing is said of these vectors being
  least-squares minimisers: they are the products with whatever matrix \<open>pinv\<close> returns.
\<close>

theorem user_step_rows:
  assumes "pinv_shape pinv" and "items s = Arr2 C" and "wf_mat C" and "wf_mat (ratings s)"
    and "nrows C = ncols (ratings s)"
  shows "new_users (snd (als_body pinv s)) =
           Some (asarray (map (matvec (pinv C)) (mrows (ratings s))))"
proof -
  let ?R = "ratings s"
  have lenR: "length (mrows ?R) = nrows ?R" using assms(4) by (simp add: wf_mat_def)
  have "solve_rows pinv (Arr2 C) ?R [0..<nrows ?R] [] =
      Inr (map (matvec (pinv C)) (take (nrows ?R) (mrows ?R)))"
    using assms by (intro solve_rows_all) simp_all
  then have "solve_rows pinv (items s) ?R [0..<nrows ?R] [] =
      Inr (map (matvec (pinv C)) (mrows ?R))"
    using lenR assms(2) by simp
  then show ?thesis
    by (simp add: als_body_def Let_def split: sum.splits)
qed

theorem user_step_rows_witness:
  "new_users (snd (als_body pinv_rank1
       (als_entry [] (Mat 2 2 [[1, 2], [3, 4]]) (Mat 2 1 [[1], [1]]) (Mat 2 1 [[1], [1]])))) =
     Some (Arr2 (Mat 2 1 [[3 / 2], [7 / 2]]))"
proof -
  let ?s = "als_entry [] (Mat 2 2 [[1, 2], [3, 4]]) (Mat 2 1 [[1], [1]]) (Mat 2 1 [[1], [1]])"
  have h: "items ?s = Arr2 (Mat 2 1 [[1], [1]])" "wf_mat (Mat 2 1 [[1], [1]])"
      "wf_mat (ratings ?s)" "nrows (Mat 2 1 [[1], [1]]) = ncols (ratings ?s)"
    by (simp_all add: als_entry_def wf_mat_def)
  have p: "pinv_rank1 (Mat 2 1 [[1], [1]]) = Mat 1 2 [[1 / 2, 1 / 2]]"
    by (simp add: pinv_rank1_def np_sum_def square_def mat_T_def scale_mat_def upt_rec)
  show ?thesis
    using user_step_rows [OF pinv_rank1_shape h] unfolding p
    by (simp add: als_entry_def matvec_def inner_prod_def)
qed

subsection \<open>The all-threes scenario in exact arithmetic\<close>

lemma mat_1x3:
  assumes "wf_mat P" "nrows P = 1" "ncols P = 3"
  shows "\<exists>a b c. P = Mat 1 3 [[a, b, c]]"
proof -
  obtain n c rs where P: "P = Mat n c rs" by (cases P)
  have "length rs = 1" "\<forall>r\<in>set rs. length r = 3"
    using assms P by (simp_all add: wf_mat_def list_all_iff)
  then obtain r where r: "rs = [r]" "length r = 3"
    by (cases rs) auto
  then obtain a b c' where "r = [a, b, c']"
    by (auto simp: numeral_3_eq_3 length_Suc_conv)
  with P r assms show ?thesis by simp
qed

lemma col3_times_row3:
  "matmul (Mat 3 1 [[x], [x], [x]]) (Mat 1 3 [[a, b, c]]) =
     Mat 3 3 [[x * a, x * b, x * c], [x * a, x * b, x * c], [x * a, x * b, x * c]]"
  by (simp add: matmul_def mat_T_def inner_prod_def upt_rec)

lemma sq3_times_col3:
  "matmul (Mat 3 3 [[p, q, r], [p, q, r], [p, q, r]]) (Mat 3 1 [[x], [x], [x]]) =
     Mat 3 1 [[p * x + (q * x + r * x)], [p * x + (q * x + r * x)], [p * x + (q * x + r * x)]]"
  by (simp add: matmul_def mat_T_def inner_prod_def upt_rec)

lemma sq3_T:
  "mat_T (Mat 3 3 [[p, q, r], [p, q, r], [p, q, r]]) = Mat 3 3 [[p, p, p], [q, q, q], [r, r, r]]"
  by (simp add: mat_T_def upt_rec)

lemma is_pinv_const_col:
  assumes "is_pinv (Mat 3 1 [[x], [x], [x]]) P" and x: "x \<noteq> 0"
  shows "P = Mat 1 3 [[1 / (3 * x), 1 / (3 * x), 1 / (3 * x)]]"
proof -
  obtain a b c where P: "P = Mat 1 3 [[a, b, c]]"
    using assms mat_1x3 [of P] by (auto simp: is_pinv_def)
  have e1: "matmul (matmul (Mat 3 1 [[x], [x], [x]]) (Mat 1 3 [[a, b, c]])) (Mat 3 1 [[x], [x], [x]])
       = Mat 3 1 [[x], [x], [x]]"
   and e3: "mat_T (matmul (Mat 3 1 [[x], [x], [x]]) (Mat 1 3 [[a, b, c]])) =
       matmul (Mat 3 1 [[x], [x], [x]]) (Mat 1 3 [[a, b, c]])"
    using assms unfolding P is_pinv_def by blast+
  have s: "x * a * x + (x * b * x + x * c * x) = x"
    using e1 unfolding col3_times_row3 sq3_times_col3 by simp
  have t: "x * a = x * b" "x * a = x * c"
    using e3 unfolding col3_times_row3 sq3_T by simp_all
  have bc: "b = a" "c = a" using t x by simp_all
  have "x * (3 * x * a) = x * 1"
    using s unfolding bc by (simp add: algebra_simps)
  then have "3 * x * a = 1" using x by simp
  then have "a = 1 / (3 * x)" using x by (simp add: field_simps)
  then show ?thesis unfolding P bc by simp
qed


text \<open>
  In exact arithmetic: the ratings matrix is \<open>3 \<times> 3\<close> with every entry 3, \<open>k = 1\<close>, both
  initial factor matrices are all 1s, and one iteration is run. If \<open>pinv\<close> returns the
  Moore-Penrose inverse of the two columns involved, the user factors are all 3, the
  item factors all 1, their product is the ratings matrix and the error is 0. Nothing
  follows for the numbers a floating-point run prints, where the pseudo-inverse is
  rounded.
\<close>

lemma als_all_threes:
  assumes "is_pinv (Mat 3 1 [[1], [1], [1]]) (pinv (Mat 3 1 [[1], [1], [1]]))"
    and "is_pinv (Mat 3 1 [[3], [3], [3]]) (pinv (Mat 3 1 [[3], [3], [3]]))"
  shows "als pinv (Mat 3 3 [[3, 3, 3], [3, 3, 3], [3, 3, 3]]) (Mat 3 1 [[1], [1], [1]])
            (Mat 3 1 [[1], [1], [1]]) 1 =
           ([0], Inr (Arr2 (Mat 3 1 [[3], [3], [3]]), Arr2 (Mat 3 1 [[1], [1], [1]]))) \<and>
         matmul (Mat 3 1 [[3], [3], [3]]) (mat_T (Mat 3 1 [[1], [1], [1]])) =
           Mat 3 3 [[3, 3, 3], [3, 3, 3], [3, 3, 3]]"
proof -
  have p1: "pinv (Mat 3 1 [[1], [1], [1]]) = Mat 1 3 [[1 / 3, 1 / 3, 1 / 3]]"
    using is_pinv_const_col [OF assms(1)] by simp
  have p3: "pinv (Mat 3 1 [[3], [3], [3]]) = Mat 1 3 [[1 / 9, 1 / 9, 1 / 9]]"
    using is_pinv_const_col [OF assms(2)] by simp
  have p1': "pinv (Mat 3 (Suc 0) [[1], [1], [1]]) = Mat (Suc 0) 3 [[1 / 3, 1 / 3, 1 / 3]]"
    using p1 by simp
  have p3': "pinv (Mat (Suc (Suc (Suc 0))) (Suc 0) [[3], [3], [3]]) = Mat (Suc 0) 3 [[1 / 9, 1 / 9, 1 / 9]]"
    using p3 by (simp add: numeral_3_eq_3)
  have run: "als pinv (Mat 3 3 [[3, 3, 3], [3, 3, 3], [3, 3, 3]]) (Mat 3 1 [[1], [1], [1]])
            (Mat 3 1 [[1], [1], [1]]) 1 =
           ([0], Inr (Arr2 (Mat 3 1 [[3], [3], [3]]), Arr2 (Mat 3 1 [[1], [1], [1]])))"
    by (simp add: als_unfold upt_rec p1' p3')
  have rec: "matmul (Mat 3 1 [[3], [3], [3]]) (mat_T (Mat 3 1 [[1], [1], [1]])) =
           Mat 3 3 [[3, 3, 3], [3, 3, 3], [3, 3, 3]]"
    by (simp add: matmul_def mat_T_def inner_prod_def upt_rec)
  show ?thesis using run rec by simp
qed

end
